theory Spec2Isabelle
  imports Main "HOL-Library.Sublist"
begin

section \<open>Python primitives used by the two scripts\<close>

text \<open>
  Strings are \<open>string\<close>, lists of 8-bit characters. Within that character range the
  class \<open>\d\<close> of the \<open>re\<close> module is exactly the ten ASCII digits, and
  \<open>str.isspace\<close> holds exactly for the code points listed in \<open>isspace\<close>.
  Console output (\<open>print\<close>) never feeds back into a computed value and is left out.
\<close>

definition is_digit :: "char \<Rightarrow> bool" where
  "is_digit c = (c \<in> set ''0123456789'')"

definition isspace :: "char \<Rightarrow> bool" where
  "isspace c =
     (let n = (of_char c :: nat)
      in (9 \<le> n \<and> n \<le> 13) \<or> (28 \<le> n \<and> n \<le> 32) \<or> n = 133 \<or> n = 160)"

text \<open>\<open>s.strip()\<close>: leading and trailing whitespace removed.\<close>

definition strip :: "string \<Rightarrow> string" where
  "strip s = rev (dropWhile isspace (rev (dropWhile isspace s)))"

text \<open>
  \<open>s.split(sep)\<close> for a one-character separator: the empty string gives one empty
  field, and \<open>n\<close> separators give \<open>n + 1\<close> fields.
\<close>

fun split_on :: "char \<Rightarrow> string \<Rightarrow> string list" where
  "split_on sep [] = [[]]"
| "split_on sep (c # cs) =
     (if c = sep then [] # split_on sep cs
      else (case split_on sep cs of
              [] \<Rightarrow> [[c]]
            | t # ts \<Rightarrow> (c # t) # ts))"

text \<open>\<open>sep.join(parts)\<close>.\<close>

fun join :: "string \<Rightarrow> string list \<Rightarrow> string" where
  "join sep [] = []"
| "join sep [p] = p"
| "join sep (p # q # ps) = p @ sep @ join sep (q # ps)"

text \<open>
  \<open>s.replace(old, new)\<close>: one scan from the left; at each position where \<open>old\<close>
  starts it is replaced and the scan resumes after it, so the occurrences replaced do
  not overlap and the text produced is not scanned again. For an empty \<open>old\<close> Python
  inserts \<open>new\<close> before every character and at the end.
\<close>

function py_replace :: "string \<Rightarrow> string \<Rightarrow> string \<Rightarrow> string" where
  "py_replace old new [] = (if old = [] then new else [])"
| "py_replace old new (c # cs) =
     (if old = [] then new @ c # py_replace old new cs
      else if prefix old (c # cs) then new @ py_replace old new (drop (length old) (c # cs))
      else c # py_replace old new cs)"
  by pat_completeness auto
termination
  by (relation "measure (\<lambda>(old, new, s). length s)") auto

text \<open>\<open>needle in s\<close> on strings: \<open>needle\<close> occurs as a contiguous substring.\<close>

fun contains :: "string \<Rightarrow> string \<Rightarrow> bool" where
  "contains needle [] = (needle = [])"
| "contains needle (c # cs) = (prefix needle (c # cs) \<or> contains needle cs)"

text \<open>\<open>os.path.basename\<close> (POSIX): the text after the last slash.\<close>

definition basename :: "string \<Rightarrow> string" where
  "basename p = rev (takeWhile (\<lambda>c. c \<noteq> CHR ''/'') (rev p))"

datatype py_error =
    ValueError
  | Uncaught_read string

text \<open>
  \<open>int(s)\<close> on a string of decimal digits, the only kind of argument the scripts pass
  (a \<open>\d+\<close> group). Python's integers are unbounded. Anything else is reported as
  \<open>ValueError\<close>; the signed, blank-padded and underscore spellings that \<open>int\<close>
  also reads lie outside what is modelled, and so does the interpreter's configurable
  cap on the number of digits (several thousand, more than a file name can hold).
\<close>

definition digit_val :: "char \<Rightarrow> int" where
  "digit_val c = int (of_char c) - 48"

definition int_of_digits :: "string \<Rightarrow> int" where
  "int_of_digits s = foldl (\<lambda>a c. 10 * a + digit_val c) 0 s"

definition py_int :: "string \<Rightarrow> py_error + int" where
  "py_int s = (if s \<noteq> [] \<and> list_all is_digit s then Inr (int_of_digits s) else Inl ValueError)"

text \<open>\<open>str(n)\<close> for an integer: decimal, no leading zeros, a minus sign if negative.\<close>

fun str_nat :: "nat \<Rightarrow> string" where
  "str_nat n =
     (if n < 10 then [char_of (48 + n)]
      else str_nat (n div 10) @ [char_of (48 + n mod 10)])"

definition str_int :: "int \<Rightarrow> string" where
  "str_int i = (if i < 0 then CHR ''-'' # str_nat (nat (- i)) else str_nat (nat i))"

text \<open>Python truthiness of a value that is \<open>None\<close> or a string.\<close>

definition truthy :: "string option \<Rightarrow> bool" where
  "truthy v = (case v of None \<Rightarrow> False | Some s \<Rightarrow> s \<noteq> [])"

section \<open>The range pattern\<close>

text \<open>
  \<open>re.search(r'\.(\d+-\d+)\.diff$', filename)\<close>. \<open>match_here\<close> is one attempt of the
  matcher at the start of its argument and returns group 1. Each \<open>\d+\<close> is greedy; giving
  back digits never helps, because the pattern continues with \<open>-\<close> or \<open>.\<close>, which no
  digit matches, so the longest run of digits is the only candidate. Without the
  MULTILINE flag \<open>$\<close> matches at the very end of the string and also just before a
  newline that is the last character. \<open>re_search\<close> tries the start positions from left
  to right and returns the first success.
\<close>

definition match_here :: "string \<Rightarrow> string option" where
  "match_here s =
     (case s of
        [] \<Rightarrow> None
      | c # r \<Rightarrow>
          if c \<noteq> CHR ''.'' then None
          else let d1 = takeWhile is_digit r; r1 = dropWhile is_digit r
               in if d1 = [] then None
                  else (case r1 of
                          [] \<Rightarrow> None
                        | m # r2 \<Rightarrow>
                            if m \<noteq> CHR ''-'' then None
                            else let d2 = takeWhile is_digit r2; r3 = dropWhile is_digit r2
                                 in if d2 = [] then None
                                    else if r3 = ''.diff'' \<or> r3 = ''.diff'' @ [CHR 0x0A]
                                         then Some (d1 @ CHR ''-'' # d2)
                                         else None))"

fun re_search :: "string \<Rightarrow> string option" where
  "re_search [] = match_here []"
| "re_search (c # cs) =
     (case match_here (c # cs) of
        Some g \<Rightarrow> Some g
      | None \<Rightarrow> re_search cs)"

section \<open>The file system as seen by the scripts\<close>

text \<open>
  \<open>open(file_path, 'r', encoding='utf-8')\<close> followed by \<open>f.read()\<close> either yields the
  text or raises. The three exception classes the scripts catch are kept apart from every
  other exception (\<open>IsADirectoryError\<close>, other \<open>OSError\<close>s, an embedded NUL), which
  the scripts let propagate. Each failure carries \<open>str(e)\<close>. \<open>os.path.exists\<close> is a
  separate query: the file system may change between it and the read.
\<close>

datatype read_outcome =
    Read_ok string
  | File_not_found string
  | Permission_denied string
  | Unicode_decode string
  | Other_failure string

record env =
  path_exists :: "string \<Rightarrow> bool"
  read_file :: "string \<Rightarrow> read_outcome"

text \<open>
  The \<open>try\<close> block shared by both parsers: a caught failure becomes the content
  \<open>f"Error reading file: {e}"\<close>.
\<close>

definition read_content :: "env \<Rightarrow> string \<Rightarrow> py_error + string" where
  "read_content e file_path =
     (case read_file e file_path of
        Read_ok text \<Rightarrow> Inr text
      | File_not_found msg \<Rightarrow> Inr (''Error reading file: '' @ msg)
      | Permission_denied msg \<Rightarrow> Inr (''Error reading file: '' @ msg)
      | Unicode_decode msg \<Rightarrow> Inr (''Error reading file: '' @ msg)
      | Other_failure msg \<Rightarrow> Inl (Uncaught_read msg))"

section \<open>The parsed record\<close>

text \<open>
  The dictionary both parsers return. The key \<open>'range'\<close> is the field \<open>range_str\<close>
  (\<open>range\<close> is taken in HOL); \<open>None\<close> values are \<open>None\<close>.
\<close>

record diff_info =
  filename :: string
  range_str :: "string option"
  start_line :: "int option"
  end_line :: "int option"
  full_path :: string
  content :: string

section \<open>parse-diff-files.py\<close>

definition parse_diff_file_path :: "env \<Rightarrow> string \<Rightarrow> py_error + diff_info" where
  "parse_diff_file_path e file_path =
     (let fname = basename file_path;
          base_filename = py_replace ''.diff'' [] fname;
          range_match = re_search fname
      in case read_content e file_path of
           Inl err \<Rightarrow> Inl err
         | Inr text \<Rightarrow>
             (case range_match of
                Some rs \<Rightarrow>
                  (case split_on CHR ''-'' rs of
                     [start_s, end_s] \<Rightarrow>
                       (case py_int start_s of
                          Inl err \<Rightarrow> Inl err
                        | Inr sl \<Rightarrow>
                            (case py_int end_s of
                               Inl err \<Rightarrow> Inl err
                             | Inr el \<Rightarrow>
                                 Inr \<lparr>filename = py_replace (CHR ''.'' # rs) [] base_filename,
                                      range_str = Some rs,
                                      start_line = Some sl,
                                      end_line = Some el,
                                      full_path = file_path,
                                      content = text\<rparr>))
                   | _ \<Rightarrow> Inl ValueError)
              | None \<Rightarrow>
                  Inr \<lparr>filename = base_filename,
                       range_str = None,
                       start_line = None,
                       end_line = None,
                       full_path = file_path,
                       content = text\<rparr>))"

text \<open>
  The loop of \<open>main\<close> (lines 73 to 80): the value of \<open>parsed_info\<close> at each round, in
  order. The report printed from it is not modelled.
\<close>

fun main_loop :: "env \<Rightarrow> string list \<Rightarrow> py_error + diff_info list" where
  "main_loop e [] = Inr []"
| "main_loop e (file_path # rest) =
     (if file_path = [] then main_loop e rest
      else (case parse_diff_file_path e file_path of
              Inl err \<Rightarrow> Inl err
            | Inr parsed_info \<Rightarrow>
                (case main_loop e rest of
                   Inl err \<Rightarrow> Inl err
                 | Inr infos \<Rightarrow> Inr (parsed_info # infos))))"

definition main_parsed :: "env \<Rightarrow> string \<Rightarrow> py_error + diff_info list" where
  "main_parsed e input_files = main_loop e (map strip (split_on CHR '','' input_files))"

section \<open>bitbucket\_comments.py\<close>

text \<open>\<open>a, b = map(int, parts)\<close>: the conversions run in order, the first failure wins.\<close>

fun map_int :: "string list \<Rightarrow> py_error + int list" where
  "map_int [] = Inr []"
| "map_int (s # ss) =
     (case py_int s of
        Inl err \<Rightarrow> Inl err
      | Inr n \<Rightarrow> (case map_int ss of Inl err \<Rightarrow> Inl err | Inr ns \<Rightarrow> Inr (n # ns)))"

definition parse_diff_file :: "env \<Rightarrow> string \<Rightarrow> py_error + diff_info option" where
  "parse_diff_file e file_path =
     (if \<not> path_exists e file_path then Inr None
      else
        let fname = basename file_path;
            base_filename = py_replace ''.diff'' [] fname;
            range_match = re_search fname
        in case read_content e file_path of
             Inl err \<Rightarrow> Inl err
           | Inr text \<Rightarrow>
               (case range_match of
                  Some rs \<Rightarrow>
                    (case map_int (split_on CHR ''-'' rs) of
                       Inl err \<Rightarrow> Inl err
                     | Inr [sl, el] \<Rightarrow>
                         Inr (Some \<lparr>filename = py_replace (CHR ''.'' # rs) [] base_filename,
                                    range_str = Some rs,
                                    start_line = Some sl,
                                    end_line = Some el,
                                    full_path = file_path,
                                    content = text\<rparr>)
                     | Inr _ \<Rightarrow> Inl ValueError)
                | None \<Rightarrow>
                    Inr (Some \<lparr>filename = base_filename,
                               range_str = None,
                               start_line = None,
                               end_line = None,
                               full_path = file_path,
                               content = text\<rparr>)))"

text \<open>
  \<open>parse_diff_files\<close>: the loop appends to \<open>results\<close>; an exception leaving
  \<open>parse_diff_file\<close> leaves the loop too.
\<close>

fun parse_loop :: "env \<Rightarrow> string list \<Rightarrow> diff_info list \<Rightarrow> py_error + diff_info list" where
  "parse_loop e [] results = Inr results"
| "parse_loop e (file_path # rest) results =
     (if file_path = [] then parse_loop e rest results
      else (case parse_diff_file e file_path of
              Inl err \<Rightarrow> Inl err
            | Inr None \<Rightarrow> parse_loop e rest results
            | Inr (Some parsed_info) \<Rightarrow> parse_loop e rest (results @ [parsed_info])))"

definition parse_diff_files :: "env \<Rightarrow> string \<Rightarrow> py_error + diff_info list" where
  "parse_diff_files e comma_separated_paths =
     parse_loop e (map strip (split_on CHR '','' comma_separated_paths)) []"

definition format_comment :: "string \<Rightarrow> string \<Rightarrow> int option \<Rightarrow> string" where
  "format_comment comment fname line =
     join [CHR 0x0A]
       ([comment]
        @ (if fname \<noteq> [] then [''File: `'' @ fname @ ''`''] else [])
        @ (case line of None \<Rightarrow> [] | Some n \<Rightarrow> [''Line: '' @ str_int n]))"

text \<open>
  The body of the posting loop of \<open>main\<close>, one definition per value it computes: the
  line handed to \<open>format_comment\<close>, the snippet test and the snippet, the comment text,
  and the line handed to \<open>post_inline_comment\<close>.
\<close>

definition display_line :: "diff_info \<Rightarrow> int option" where
  "display_line d = (if truthy (range_str d) then start_line d else None)"

definition has_snippet :: "diff_info \<Rightarrow> bool" where
  "has_snippet d = (content d \<noteq> [] \<and> contains ''+++'' (content d))"

definition snippet :: "diff_info \<Rightarrow> string" where
  "snippet d = join [CHR 0x0A] (take 8 (split_on (CHR 0x0A) (content d)))"

definition comment_text :: "string \<Rightarrow> diff_info \<Rightarrow> string" where
  "comment_text default_comment d =
     (let formatted = format_comment default_comment (filename d) (display_line d)
      in if has_snippet d
         then formatted @ [CHR 0x0A, CHR 0x0A] @ ''```'' @ [CHR 0x0A] @ snippet d
              @ [CHR 0x0A] @ ''```''
         else formatted)"

definition line_number :: "diff_info \<Rightarrow> int option" where
  "line_number d = (if truthy (range_str d) then start_line d else Some 1)"

record request =
  req_pr :: int
  req_file_path :: string
  req_line :: "int option"
  req_comment_text :: string

definition request_for :: "int \<Rightarrow> string \<Rightarrow> diff_info \<Rightarrow> request" where
  "request_for pr default_comment d =
     \<lparr>req_pr = pr,
      req_file_path = filename d,
      req_line = line_number d,
      req_comment_text = comment_text default_comment d\<rparr>"

text \<open>
  The posting loop: \<open>post\<close> stands for \<open>post_inline_comment\<close> of the client, which
  answers each request with success or failure. The loop returns the requests it sent
  and \<open>success_count\<close>.
\<close>

fun post_loop ::
  "(request \<Rightarrow> bool) \<Rightarrow> int \<Rightarrow> string \<Rightarrow> diff_info list \<Rightarrow> request list \<Rightarrow> nat
     \<Rightarrow> request list \<times> nat" where
  "post_loop post pr default_comment [] sent success_count = (sent, success_count)"
| "post_loop post pr default_comment (d # ds) sent success_count =
     (let rq = request_for pr default_comment d
      in post_loop post pr default_comment ds (sent @ [rq])
           (if post rq then success_count + 1 else success_count))"

text \<open>
  \<open>main\<close> after the client is set up and outside test mode: the requests sent and the
  exit code. \<open>default_comment_of\<close> is \<open>args.comment or "Code review finding"\<close>.
\<close>

definition default_comment_of :: "string option \<Rightarrow> string" where
  "default_comment_of comment =
     (case comment of
        None \<Rightarrow> ''Code review finding''
      | Some c \<Rightarrow> if c \<noteq> [] then c else ''Code review finding'')"

definition main :: "env \<Rightarrow> (request \<Rightarrow> bool) \<Rightarrow> int \<Rightarrow> string \<Rightarrow> string option
                     \<Rightarrow> py_error + (request list \<times> nat)" where
  "main e post pr diff_files comment =
     (case parse_diff_files e diff_files of
        Inl err \<Rightarrow> Inl err
      | Inr diff_data \<Rightarrow>
          if diff_data = [] then Inr ([], 1)
          else
            let default_comment = default_comment_of comment;
                (sent, success_count) = post_loop post pr default_comment diff_data [] 0
            in Inr (sent, if success_count = length diff_data then 0 else 1))"

section \<open>File systems used to evaluate the model\<close>

text \<open>
  \<open>readable body\<close>: every path exists and reads as \<open>body\<close>. \<open>missing msg\<close>: no path
  exists and every read raises \<open>FileNotFoundError\<close>. \<open>unreadable msg\<close>: every path exists
  and every read raises \<open>PermissionError\<close>. \<open>directory msg\<close>: every path exists and every
  read raises \<open>IsADirectoryError\<close>, which neither script catches.
\<close>

definition readable :: "string \<Rightarrow> env" where
  "readable body = \<lparr>path_exists = (\<lambda>p. True), read_file = (\<lambda>p. Read_ok body)\<rparr>"

definition missing :: "string \<Rightarrow> env" where
  "missing msg = \<lparr>path_exists = (\<lambda>p. False), read_file = (\<lambda>p. File_not_found msg)\<rparr>"

definition unreadable :: "string \<Rightarrow> env" where
  "unreadable msg = \<lparr>path_exists = (\<lambda>p. True), read_file = (\<lambda>p. Permission_denied msg)\<rparr>"

definition directory :: "string \<Rightarrow> env" where
  "directory msg = \<lparr>path_exists = (\<lambda>p. True), read_file = (\<lambda>p. Other_failure msg)\<rparr>"

text \<open>
  \<open>unlisted body\<close>: \<open>os.path.exists\<close> denies every path, yet every read gives \<open>body\<close>
  (the file appears between the two calls).
\<close>

definition unlisted :: "string \<Rightarrow> env" where
  "unlisted body = \<lparr>path_exists = (\<lambda>p. False), read_file = (\<lambda>p. Read_ok body)\<rparr>"

definition accept_all :: "request \<Rightarrow> bool" where
  "accept_all rq = True"

text \<open>The record both parsers build for \<open>out/app.py.3-9.diff\<close>, up to its content.\<close>

definition app_record :: "string \<Rightarrow> diff_info" where
  "app_record body =
     \<lparr>filename = ''app.py'', range_str = Some ''3-9'', start_line = Some 3, end_line = Some 9,
      full_path = ''out/app.py.3-9.diff'', content = body\<rparr>"

text \<open>The three records of the batch \<open>a.diff, b.1-5.diff , ,c.9-10.diff\<close>.\<close>

definition abc_records :: "string \<Rightarrow> diff_info list" where
  "abc_records body =
     [\<lparr>filename = ''a'', range_str = None, start_line = None, end_line = None,
       full_path = ''a.diff'', content = body\<rparr>,
      \<lparr>filename = ''b'', range_str = Some ''1-5'', start_line = Some 1, end_line = Some 5,
       full_path = ''b.1-5.diff'', content = body\<rparr>,
      \<lparr>filename = ''c'', range_str = Some ''9-10'', start_line = Some 9, end_line = Some 10,
       full_path = ''c.9-10.diff'', content = body\<rparr>]"

text \<open>A diff of ten lines whose second line carries the \<open>+++\<close> marker.\<close>

definition ten_lines :: string where
  "ten_lines = join [CHR 0x0A]
     [''--- a/app.py'', ''+++ b/app.py'', ''@@ -3,7 +3,7 @@'', ''l4'', ''l5'', ''l6'', ''l7'',
      ''l8'', ''l9'', ''l10'']"

text \<open>The record both parsers build for \<open>a.diff\<close>, up to its content.\<close>

definition a_record :: "string \<Rightarrow> diff_info" where
  "a_record body =
     \<lparr>filename = ''a'', range_str = None, start_line = None, end_line = None,
      full_path = ''a.diff'', content = body\<rparr>"

section \<open>Digits, \<open>split\<close> and \<open>int\<close>\<close>

lemma is_digit_simps: "\<not> is_digit CHR ''-''" "\<not> is_digit CHR ''.''"
  by (simp_all add: is_digit_def)

lemma takeWhile_digits_append:
  "list_all is_digit d \<Longrightarrow> \<not> is_digit c \<Longrightarrow> takeWhile is_digit (d @ c # r) = d"
  by (induction d) simp_all

lemma dropWhile_digits_append:
  "list_all is_digit d \<Longrightarrow> \<not> is_digit c \<Longrightarrow> dropWhile is_digit (d @ c # r) = c # r"
  by (induction d) simp_all

lemma list_all_takeWhile: "list_all P (takeWhile P xs)"
  by (induction xs) simp_all

lemma split_on_digits: "list_all is_digit d \<Longrightarrow> split_on CHR ''-'' d = [d]"
  by (induction d) (auto simp: is_digit_def)

lemma split_on_range:
  "list_all is_digit d1 \<Longrightarrow> list_all is_digit d2
     \<Longrightarrow> split_on CHR ''-'' (d1 @ CHR ''-'' # d2) = [d1, d2]"
  by (induction d1) (auto simp: split_on_digits is_digit_def)

lemma digit_val_nonneg: "is_digit c \<Longrightarrow> 0 \<le> digit_val c"
  by (auto simp: is_digit_def digit_val_def)

lemma foldl_digits_nonneg:
  "list_all is_digit d \<Longrightarrow> 0 \<le> a \<Longrightarrow> 0 \<le> foldl (\<lambda>a c. 10 * a + digit_val c) a d"
  by (induction d arbitrary: a) (auto simp: digit_val_nonneg)

lemma int_of_digits_nonneg: "list_all is_digit d \<Longrightarrow> 0 \<le> int_of_digits d"
  by (simp add: int_of_digits_def foldl_digits_nonneg)

lemma py_int_digits: "d \<noteq> [] \<Longrightarrow> list_all is_digit d \<Longrightarrow> py_int d = Inr (int_of_digits d)"
  by (simp add: py_int_def)

section \<open>What the range pattern accepts\<close>

text \<open>
  One attempt of the matcher succeeds exactly on a dot, two non-empty runs of digits
  separated by a hyphen, \<open>.diff\<close>, and an optional final newline.
\<close>

lemma match_here_complete:
  assumes "d1 \<noteq> []" "d2 \<noteq> []" "list_all is_digit d1" "list_all is_digit d2"
    and "nl = [] \<or> nl = [CHR 0x0A]"
  shows "match_here (CHR ''.'' # d1 @ CHR ''-'' # d2 @ ''.diff'' @ nl) = Some (d1 @ CHR ''-'' # d2)"
  using assms
  by (auto simp: match_here_def takeWhile_digits_append dropWhile_digits_append is_digit_simps)

lemma match_here_sound:
  assumes "match_here s = Some g"
  shows "\<exists>d1 d2 nl. s = CHR ''.'' # d1 @ CHR ''-'' # d2 @ ''.diff'' @ nl
           \<and> (nl = [] \<or> nl = [CHR 0x0A])
           \<and> d1 \<noteq> [] \<and> d2 \<noteq> [] \<and> list_all is_digit d1 \<and> list_all is_digit d2
           \<and> g = d1 @ CHR ''-'' # d2"
proof -
  from assms obtain r where s: "s = CHR ''.'' # r"
    by (auto simp: match_here_def split: list.splits if_splits)
  define d1 where "d1 = takeWhile is_digit r"
  define r1 where "r1 = dropWhile is_digit r"
  have r: "r = d1 @ r1" by (simp add: d1_def r1_def)
  from assms s have d1: "d1 \<noteq> []"
    by (auto simp: match_here_def d1_def Let_def split: list.splits if_splits)
  from assms s obtain r2 where r1: "r1 = CHR ''-'' # r2"
    by (auto simp: match_here_def d1_def r1_def Let_def split: list.splits if_splits)
  define d2 where "d2 = takeWhile is_digit r2"
  define r3 where "r3 = dropWhile is_digit r2"
  have r2: "r2 = d2 @ r3" by (simp add: d2_def r3_def)
  from assms s r1 have d2: "d2 \<noteq> []"
    by (auto simp: match_here_def d2_def r1_def Let_def split: list.splits if_splits)
  from assms s r1 have r3: "r3 = ''.diff'' \<or> r3 = ''.diff'' @ [CHR 0x0A]"
    unfolding match_here_def r3_def r1_def Let_def
    by (simp split: list.splits if_splits)
  from assms s r1 have g: "g = d1 @ CHR ''-'' # d2"
    unfolding match_here_def d1_def d2_def r1_def Let_def
    by (simp split: list.splits if_splits)
  have "list_all is_digit d1" "list_all is_digit d2"
    by (simp_all add: d1_def d2_def list_all_takeWhile)
  with s r r1 r2 r3 d1 d2 g show ?thesis by auto
qed

lemma re_search_sound:
  "re_search s = Some g \<Longrightarrow> \<exists>pre x. s = pre @ x \<and> match_here x = Some g"
proof (induction s)
  case Nil
  then show ?case by simp
next
  case (Cons c cs)
  show ?case
  proof (cases "match_here (c # cs)")
    case (Some g')
    with Cons.prems have "c # cs = [] @ (c # cs) \<and> match_here (c # cs) = Some g" by simp
    then show ?thesis by blast
  next
    case None
    with Cons.prems have "re_search cs = Some g" by simp
    from Cons.IH[OF this] obtain pre x where "cs = pre @ x" "match_here x = Some g" by blast
    then have "c # cs = (c # pre) @ x \<and> match_here x = Some g" by simp
    then show ?thesis by blast
  qed
qed

lemma re_search_group:
  assumes "re_search s = Some rs"
  shows "\<exists>stem d1 d2 nl. s = stem @ CHR ''.'' # d1 @ CHR ''-'' # d2 @ ''.diff'' @ nl
            \<and> (nl = [] \<or> nl = [CHR 0x0A])
            \<and> rs = d1 @ CHR ''-'' # d2 \<and> d1 \<noteq> [] \<and> d2 \<noteq> []
            \<and> list_all is_digit d1 \<and> list_all is_digit d2"
proof -
  from re_search_sound[OF assms] obtain pre x where x: "s = pre @ x" "match_here x = Some rs"
    by blast
  from match_here_sound[OF x(2)] x(1) show ?thesis by blast
qed

text \<open>
  The search is complete and unambiguous: a name that ends with such a suffix is matched
  at that suffix, wherever else dots and digits occur in it. A successful attempt consumes
  exactly two dots, and every attempt starts on a dot, so no attempt further to the left
  can succeed.
\<close>

lemma digits_no_dot: "list_all is_digit d \<Longrightarrow> filter (\<lambda>c. c = CHR ''.'') d = []"
  by (induction d) (auto simp: is_digit_def)

lemma match_here_dots:
  assumes "match_here x = Some g"
  shows "length (filter (\<lambda>c. c = CHR ''.'') x) = 2"
proof -
  from match_here_sound[OF assms] obtain d1 d2 nl where
    x: "x = CHR ''.'' # d1 @ CHR ''-'' # d2 @ ''.diff'' @ nl"
    and nl: "nl = [] \<or> nl = [CHR 0x0A]"
    and d: "list_all is_digit d1" "list_all is_digit d2"
    by blast
  from nl have "filter (\<lambda>c. c = CHR ''.'') nl = []" by auto
  with x d show ?thesis by (simp add: digits_no_dot)
qed

lemma match_here_starts_with_dot: "match_here (c # cs) = Some g \<Longrightarrow> c = CHR ''.''"
  by (auto simp: match_here_def split: if_splits)

lemma re_search_complete:
  assumes "match_here x = Some g"
  shows "re_search (pre @ x) = Some g"
proof (induction pre)
  case Nil
  from assms show ?case by (cases x) simp_all
next
  case (Cons c pre)
  have "match_here (c # pre @ x) = None"
  proof (rule ccontr)
    assume "match_here (c # pre @ x) \<noteq> None"
    then obtain g' where g': "match_here (c # pre @ x) = Some g'" by auto
    from match_here_dots[OF g'] match_here_dots[OF assms] match_here_starts_with_dot[OF g']
    show False by simp
  qed
  with Cons.IH show ?case by simp
qed

lemma re_search_matching_name:
  assumes "d1 \<noteq> []" "d2 \<noteq> []" "list_all is_digit d1" "list_all is_digit d2"
  shows "re_search (stem @ CHR ''.'' # d1 @ CHR ''-'' # d2 @ ''.diff'') = Some (d1 @ CHR ''-'' # d2)"
  using re_search_complete[OF match_here_complete[OF assms, of "[]"], of stem] by simp

section \<open>The shape of a parsed record\<close>

lemma map_int_error: "map_int ss = Inl err \<Longrightarrow> err = ValueError"
  by (induction ss arbitrary: err) (auto simp: py_int_def split: sum.splits if_splits)

lemma parse_diff_file_path_range:
  assumes "re_search (basename p) = Some (d1 @ CHR ''-'' # d2)"
    and "d1 \<noteq> []" "d2 \<noteq> []" "list_all is_digit d1" "list_all is_digit d2"
    and "read_content e p = Inr body"
  shows "parse_diff_file_path e p =
           Inr \<lparr>filename = py_replace (CHR ''.'' # d1 @ CHR ''-'' # d2) []
                               (py_replace ''.diff'' [] (basename p)),
                range_str = Some (d1 @ CHR ''-'' # d2),
                start_line = Some (int_of_digits d1),
                end_line = Some (int_of_digits d2),
                full_path = p,
                content = body\<rparr>"
  using assms by (simp add: parse_diff_file_path_def split_on_range py_int_digits)

lemma parse_diff_file_path_norange:
  assumes "re_search (basename p) = None" and "read_content e p = Inr body"
  shows "parse_diff_file_path e p =
           Inr \<lparr>filename = py_replace ''.diff'' [] (basename p),
                range_str = None, start_line = None, end_line = None,
                full_path = p, content = body\<rparr>"
  using assms by (simp add: parse_diff_file_path_def)

lemma parse_diff_file_path_error:
  "read_content e p = Inl err \<Longrightarrow> parse_diff_file_path e p = Inl err"
  by (simp add: parse_diff_file_path_def)

lemma parse_diff_file_missing: "\<not> path_exists e p \<Longrightarrow> parse_diff_file e p = Inr None"
  by (simp add: parse_diff_file_def)

lemma parse_diff_file_existing:
  assumes "path_exists e p"
  shows "parse_diff_file e p =
           (case parse_diff_file_path e p of Inl err \<Rightarrow> Inl err | Inr r \<Rightarrow> Inr (Some r))"
proof (cases "read_content e p")
  case (Inl err)
  with assms show ?thesis by (simp add: parse_diff_file_def parse_diff_file_path_def)
next
  case (Inr body)
  note rd = this
  show ?thesis
  proof (cases "re_search (basename p)")
    case None
    with rd assms show ?thesis by (simp add: parse_diff_file_def parse_diff_file_path_def)
  next
    case (Some rs)
    from re_search_group[OF Some] obtain d1 d2 where
      g: "rs = d1 @ CHR ''-'' # d2" "d1 \<noteq> []" "d2 \<noteq> []"
         "list_all is_digit d1" "list_all is_digit d2"
      by blast
    have "map_int (split_on CHR ''-'' rs) = Inr [int_of_digits d1, int_of_digits d2]"
      using g by (simp add: split_on_range py_int_digits)
    moreover have "parse_diff_file_path e p =
           Inr \<lparr>filename = py_replace (CHR ''.'' # rs) [] (py_replace ''.diff'' [] (basename p)),
                range_str = Some rs,
                start_line = Some (int_of_digits d1),
                end_line = Some (int_of_digits d2),
                full_path = p,
                content = body\<rparr>"
      using parse_diff_file_path_range[of p d1 d2 e body] Some g rd by simp
    ultimately show ?thesis
      using assms rd Some by (simp add: parse_diff_file_def)
  qed
qed

lemma parse_diff_file_path_other_content:
  assumes "parse_diff_file_path e1 p = Inr r1" and "read_content e2 p = Inr body"
  shows "parse_diff_file_path e2 p = Inr (r1\<lparr>content := body\<rparr>)"
proof -
  from assms(1) obtain b1 where b1: "read_content e1 p = Inr b1"
    by (cases "read_content e1 p") (simp_all add: parse_diff_file_path_error)
  show ?thesis
  proof (cases "re_search (basename p)")
    case None
    from parse_diff_file_path_norange[OF None b1] parse_diff_file_path_norange[OF None assms(2)] assms(1)
    show ?thesis by auto
  next
    case (Some rs)
    from re_search_group[OF Some] obtain d1 d2 where
      g: "rs = d1 @ CHR ''-'' # d2" "d1 \<noteq> []" "d2 \<noteq> []"
         "list_all is_digit d1" "list_all is_digit d2"
      by blast
    from Some g have s: "re_search (basename p) = Some (d1 @ CHR ''-'' # d2)" by simp
    from parse_diff_file_path_range[OF s g(2-5) b1] parse_diff_file_path_range[OF s g(2-5) assms(2)] assms(1)
    show ?thesis by auto
  qed
qed

lemma parse_diff_file_SomeD:
  "parse_diff_file e p = Inr (Some r) \<Longrightarrow> path_exists e p \<and> parse_diff_file_path e p = Inr r"
  by (cases "path_exists e p")
     (auto simp: parse_diff_file_missing parse_diff_file_existing split: sum.splits)

lemma parse_diff_file_path_cong:
  "read_file e1 p = read_file e2 p \<Longrightarrow> parse_diff_file_path e1 p = parse_diff_file_path e2 p"
  by (simp add: parse_diff_file_path_def read_content_def)

lemma read_content_caught:
  assumes "read_file e p = File_not_found m \<or> read_file e p = Permission_denied m
             \<or> read_file e p = Unicode_decode m"
  shows "read_content e p = Inr (''Error reading file: '' @ m)"
  using assms by (auto simp: read_content_def)

lemma read_content_total:
  assumes "\<forall>m. read_file e p \<noteq> Other_failure m"
  shows "\<exists>body. read_content e p = Inr body"
  using assms by (cases "read_file e p") (simp_all add: read_content_def)

lemma parse_diff_file_path_content:
  assumes "read_content e p = Inr body"
  shows "\<exists>r. parse_diff_file_path e p = Inr r \<and> content r = body \<and> full_path r = p"
proof (cases "re_search (basename p)")
  case None
  from parse_diff_file_path_norange[OF None assms] show ?thesis by simp
next
  case (Some rs)
  from re_search_group[OF Some] obtain d1 d2 where
    g: "rs = d1 @ CHR ''-'' # d2" "d1 \<noteq> []" "d2 \<noteq> []"
       "list_all is_digit d1" "list_all is_digit d2"
    by blast
  from Some g have s: "re_search (basename p) = Some (d1 @ CHR ''-'' # d2)" by simp
  from parse_diff_file_path_range[OF s g(2-5) assms] show ?thesis by simp
qed

lemma parse_diff_file_path_total:
  assumes "\<forall>m. read_file e p \<noteq> Other_failure m"
  shows "\<exists>r. parse_diff_file_path e p = Inr r"
  using read_content_total[OF assms] parse_diff_file_path_content by blast

lemma parsed_range_cases:
  assumes "parse_diff_file e p = Inr (Some d)"
  shows "(range_str d = None \<and> start_line d = None)
       \<or> (\<exists>rs n. range_str d = Some rs \<and> rs \<noteq> [] \<and> start_line d = Some n)"
proof -
  from parse_diff_file_SomeD[OF assms] have pr: "parse_diff_file_path e p = Inr d" by simp
  then obtain body where rd: "read_content e p = Inr body"
    by (cases "read_content e p") (simp_all add: parse_diff_file_path_error)
  show ?thesis
  proof (cases "re_search (basename p)")
    case None
    from parse_diff_file_path_norange[OF None rd] pr show ?thesis by auto
  next
    case (Some rs)
    from re_search_group[OF Some] obtain d1 d2 where
      g: "rs = d1 @ CHR ''-'' # d2" "d1 \<noteq> []" "d2 \<noteq> []"
         "list_all is_digit d1" "list_all is_digit d2"
      by blast
    from Some g have s: "re_search (basename p) = Some (d1 @ CHR ''-'' # d2)" by simp
    from parse_diff_file_path_range[OF s g(2-5) rd] pr show ?thesis by auto
  qed
qed

text \<open>
  A name of the form \<open>stem.d1-d2.diff\<close> always gets the range \<open>(d1, d2)\<close>. A newline
  after \<open>.diff\<close> does not prevent the match, since \<open>$\<close> also matches before it.
\<close>

lemma matching_name_range:
  assumes "basename p = stem @ CHR ''.'' # d1 @ CHR ''-'' # d2 @ ''.diff''"
    and "d1 \<noteq> []" "d2 \<noteq> []" "list_all is_digit d1" "list_all is_digit d2"
    and "parse_diff_file_path e p = Inr r \<or> parse_diff_file e p = Inr (Some r)"
  shows "range_str r = Some (d1 @ CHR ''-'' # d2)
       \<and> start_line r = Some (int_of_digits d1) \<and> end_line r = Some (int_of_digits d2)"
proof -
  from assms(6) have pr: "parse_diff_file_path e p = Inr r"
    using parse_diff_file_SomeD by blast
  then obtain body where rd: "read_content e p = Inr body"
    by (cases "read_content e p") (simp_all add: parse_diff_file_path_error)
  from re_search_matching_name[OF assms(2-5), of stem] assms(1)
  have "re_search (basename p) = Some (d1 @ CHR ''-'' # d2)" by simp
  from parse_diff_file_path_range[OF this assms(2-5) rd] pr show ?thesis by auto
qed

lemma trailing_newline_still_matches:
  "parse_diff_file_path (readable ''x'') (''a.1-2.diff'' @ [CHR 0x0A]) =
     Inr \<lparr>filename = ''a'' @ [CHR 0x0A], range_str = Some ''1-2'', start_line = Some 1,
          end_line = Some 2, full_path = ''a.1-2.diff'' @ [CHR 0x0A], content = ''x''\<rparr>"
  by code_simp

section \<open>\<open>split\<close>, \<open>join\<close> and \<open>in\<close>\<close>

lemma split_on_no_sep: "sep \<notin> set s \<Longrightarrow> split_on sep s = [s]"
  by (induction s) auto

lemma split_on_not_Nil: "split_on sep s \<noteq> []"
  by (induction s) (auto split: list.splits)

lemma split_on_fields: "t \<in> set (split_on sep s) \<Longrightarrow> sep \<notin> set t"
  by (induction s arbitrary: t) (auto split: list.splits if_splits)

lemma join_Cons: "ls \<noteq> [] \<Longrightarrow> join sep (l # ls) = l @ sep @ join sep ls"
  by (cases ls) simp_all

lemma split_on_append_sep:
  "sep \<notin> set l \<Longrightarrow> split_on sep (l @ sep # r) = l # split_on sep r"
  by (induction l) (auto split: list.splits)

lemma split_on_join:
  "ls \<noteq> [] \<Longrightarrow> \<forall>l \<in> set ls. sep \<notin> set l \<Longrightarrow> split_on sep (join [sep] ls) = ls"
proof (induction ls)
  case Nil
  then show ?case by simp
next
  case (Cons l ls)
  show ?case
  proof (cases "ls = []")
    case True
    with Cons.prems show ?thesis by (simp add: split_on_no_sep)
  next
    case False
    with Cons have "split_on sep (join [sep] ls) = ls" by simp
    with False Cons.prems show ?thesis by (simp add: join_Cons split_on_append_sep)
  qed
qed

lemma join_split_on: "join [sep] (split_on sep s) = s"
proof (induction s)
  case Nil
  then show ?case by simp
next
  case (Cons c cs)
  show ?case
  proof (cases "c = sep")
    case True
    with Cons show ?thesis by (simp add: join_Cons split_on_not_Nil)
  next
    case False
    obtain t ts where ts: "split_on sep cs = t # ts"
      using split_on_not_Nil[of sep cs] by (cases "split_on sep cs") auto
    with Cons False show ?thesis by (cases ts) auto
  qed
qed

lemma contains_iff: "contains needle s \<longleftrightarrow> (\<exists>u v. s = u @ needle @ v)"
proof (induction s)
  case Nil
  then show ?case by auto
next
  case (Cons c cs)
  show ?case
  proof
    assume "contains needle (c # cs)"
    then consider "prefix needle (c # cs)" | "contains needle cs" by auto
    then show "\<exists>u v. c # cs = u @ needle @ v"
    proof cases
      case 1
      then obtain v where "c # cs = needle @ v" by (auto simp: prefix_def)
      then have "c # cs = [] @ needle @ v" by simp
      then show ?thesis by blast
    next
      case 2
      with Cons obtain u v where "cs = u @ needle @ v" by blast
      then have "c # cs = (c # u) @ needle @ v" by simp
      then show ?thesis by blast
    qed
  next
    assume "\<exists>u v. c # cs = u @ needle @ v"
    then obtain u v where uv: "c # cs = u @ needle @ v" by blast
    show "contains needle (c # cs)"
    proof (cases u)
      case Nil
      with uv have "prefix needle (c # cs)" by (simp add: prefix_def)
      then show ?thesis by simp
    next
      case (Cons a u')
      with uv have "cs = u' @ needle @ v" by simp
      with Cons.IH have "contains needle cs" by blast
      then show ?thesis by simp
    qed
  qed
qed

lemma snippet_lines:
  "split_on (CHR 0x0A) (snippet d) = take 8 (split_on (CHR 0x0A) (content d))"
proof -
  have "take 8 (split_on (CHR 0x0A) (content d)) \<noteq> []"
    using split_on_not_Nil[of "CHR 0x0A" "content d"] by (cases "split_on (CHR 0x0A) (content d)") auto
  moreover have "\<forall>l \<in> set (take 8 (split_on (CHR 0x0A) (content d))). CHR 0x0A \<notin> set l"
    using split_on_fields in_set_takeD by fast
  ultimately show ?thesis
    unfolding snippet_def by (rule split_on_join)
qed

section \<open>\<open>replace\<close> when the text occurs once, at the end\<close>

lemma py_replace_absent:
  "old \<noteq> [] \<Longrightarrow> \<not> contains old s \<Longrightarrow> py_replace old new s = s"
  by (induction s) auto

lemma py_replace_first:
  assumes "old \<noteq> []" and "\<not> contains old (u @ butlast old)"
  shows "py_replace old new (u @ old @ v) = u @ new @ py_replace old new v"
  using assms(2)
proof (induction u)
  case Nil
  from assms(1) obtain c cs where old: "old = c # cs" by (cases old) auto
  then show ?case by simp
next
  case (Cons a u)
  have np: "\<not> prefix old (a # u @ old @ v)"
  proof
    assume "prefix old (a # u @ old @ v)"
    then have "take (length old) (a # u @ old @ v) = old"
      by (metis append_eq_conv_conj prefix_def)
    moreover have "length old \<le> length (a # u @ butlast old)" by simp
    moreover have "a # u @ old @ v = (a # u @ butlast old) @ (last old # v)"
      using assms(1) by simp
    ultimately have "take (length old) (a # u @ butlast old) = old"
      by (metis append_Cons take_all take_append diff_is_0_eq' take_0 append_Nil2 append_assoc)
    then have "prefix old (a # u @ butlast old)"
      by (metis take_is_prefix)
    then have "contains old (a # u @ butlast old)" by simp
    with Cons.prems show False by simp
  qed
  from Cons.prems have "\<not> contains old (u @ butlast old)" by simp
  from Cons.IH[OF this] np assms(1) show ?case by simp
qed

lemma py_replace_suffix:
  assumes "old \<noteq> []" and "\<forall>a b. u @ old = a @ old @ b \<longrightarrow> b = []"
  shows "py_replace old new (u @ old) = u @ new"
proof -
  have "\<not> contains old (u @ butlast old)"
  proof
    assume "contains old (u @ butlast old)"
    then obtain a b where ab: "u @ butlast old = a @ old @ b" by (auto simp: contains_iff)
    have "u @ old = (u @ butlast old) @ [last old]" using assms(1) by simp
    with ab have "u @ old = a @ old @ (b @ [last old])" by simp
    with assms(2) have "b @ [last old] = []" by blast
    then show False by simp
  qed
  from py_replace_first[OF assms(1) this, of new "[]"] assms(1) show ?thesis by simp
qed

lemma only_suffix_stem:
  assumes "old \<noteq> []" and "\<forall>a b. u @ old @ w = a @ old @ b \<longrightarrow> b = w"
  shows "\<not> contains old u"
proof
  assume "contains old u"
  then obtain a b where "u = a @ old @ b" by (auto simp: contains_iff)
  then have "u @ old @ w = a @ old @ (b @ old @ w)" by simp
  with assms(2) have "b @ old @ w = w" by blast
  then have "length (b @ old @ w) = length w" by simp
  with assms(1) show False by simp
qed

section \<open>The batch loops and the posting loop\<close>

lemma parse_loop_records:
  assumes "\<forall>t \<in> set fps. \<forall>m. read_file e t \<noteq> Other_failure m"
  shows "\<exists>rs. parse_loop e fps acc = Inr (acc @ rs)
           \<and> map (parse_diff_file e) (filter (\<lambda>t. t \<noteq> [] \<and> path_exists e t) fps)
               = map (\<lambda>r. Inr (Some r)) rs"
  using assms
proof (induction fps arbitrary: acc)
  case Nil
  then show ?case by simp
next
  case (Cons t fps)
  from Cons.prems have rest: "\<forall>t \<in> set fps. \<forall>m. read_file e t \<noteq> Other_failure m"
    and here: "\<forall>m. read_file e t \<noteq> Other_failure m" by simp_all
  show ?case
  proof (cases "t \<noteq> [] \<and> path_exists e t")
    case False
    from Cons.IH[OF rest, of acc] obtain rs where
      "parse_loop e fps acc = Inr (acc @ rs)"
      "map (parse_diff_file e) (filter (\<lambda>t. t \<noteq> [] \<and> path_exists e t) fps)
               = map (\<lambda>r. Inr (Some r)) rs"
      by blast
    with False show ?thesis by (auto simp: parse_diff_file_missing)
  next
    case True
    from parse_diff_file_path_total[OF here] obtain r where r: "parse_diff_file_path e t = Inr r"
      by blast
    with True have pf: "parse_diff_file e t = Inr (Some r)"
      by (simp add: parse_diff_file_existing)
    from Cons.IH[OF rest, of "acc @ [r]"] obtain rs where rs:
      "parse_loop e fps (acc @ [r]) = Inr ((acc @ [r]) @ rs)"
      "map (parse_diff_file e) (filter (\<lambda>t. t \<noteq> [] \<and> path_exists e t) fps)
               = map (\<lambda>r. Inr (Some r)) rs"
      by blast
    have "parse_loop e (t # fps) acc = Inr (acc @ (r # rs))"
      using True pf rs(1) by simp
    moreover have "map (parse_diff_file e) (filter (\<lambda>t. t \<noteq> [] \<and> path_exists e t) (t # fps))
               = map (\<lambda>r. Inr (Some r)) (r # rs)"
      using True pf rs(2) by simp
    ultimately show ?thesis by blast
  qed
qed

lemma main_loop_records:
  assumes "\<forall>t \<in> set fps. \<forall>m. read_file e t \<noteq> Other_failure m"
  shows "\<exists>rs. main_loop e fps = Inr rs
           \<and> map (parse_diff_file_path e) (filter (\<lambda>t. t \<noteq> []) fps) = map Inr rs"
  using assms
proof (induction fps)
  case Nil
  then show ?case by simp
next
  case (Cons t fps)
  from Cons.prems have rest: "\<forall>t \<in> set fps. \<forall>m. read_file e t \<noteq> Other_failure m"
    and here: "\<forall>m. read_file e t \<noteq> Other_failure m" by simp_all
  from Cons.IH[OF rest] obtain rs where rs: "main_loop e fps = Inr rs"
      "map (parse_diff_file_path e) (filter (\<lambda>t. t \<noteq> []) fps) = map Inr rs"
    by blast
  show ?case
  proof (cases "t = []")
    case True
    with rs show ?thesis by simp
  next
    case False
    from parse_diff_file_path_total[OF here] obtain r where r: "parse_diff_file_path e t = Inr r"
      by blast
    have "main_loop e (t # fps) = Inr (r # rs)" using False r rs(1) by simp
    moreover have "map (parse_diff_file_path e) (filter (\<lambda>t. t \<noteq> []) (t # fps)) = map Inr (r # rs)"
      using False r rs(2) by simp
    ultimately show ?thesis by blast
  qed
qed

lemma parse_loop_origin:
  assumes "parse_loop e fps acc = Inr rs" and "d \<in> set rs"
  shows "d \<in> set acc \<or> (\<exists>p. parse_diff_file e p = Inr (Some d))"
  using assms
proof (induction fps arbitrary: acc)
  case Nil
  then show ?case by simp
next
  case (Cons t fps)
  show ?case
  proof (cases "t = []")
    case True
    with Cons show ?thesis by simp
  next
    case False
    show ?thesis
    proof (cases "parse_diff_file e t")
      case (Inl err)
      with False Cons.prems show ?thesis by simp
    next
      case (Inr res)
      show ?thesis
      proof (cases res)
        case None
        with Inr False Cons show ?thesis by simp
      next
        case (Some r)
        with Inr False Cons.prems have "parse_loop e fps (acc @ [r]) = Inr rs" by simp
        from Cons.IH[OF this Cons.prems(2)] Inr Some show ?thesis by auto
      qed
    qed
  qed
qed

lemma parse_diff_files_origin:
  assumes "parse_diff_files e csv = Inr ds" and "d \<in> set ds"
  shows "\<exists>p. parse_diff_file e p = Inr (Some d)"
  using parse_loop_origin[of e _ "[]" ds d] assms by (auto simp: parse_diff_files_def)

lemma parse_diff_files_single:
  assumes "p \<noteq> []" "strip p = p" "CHR '','' \<notin> set p"
  shows "parse_diff_files e p =
           (case parse_diff_file e p of
              Inl err \<Rightarrow> Inl err
            | Inr None \<Rightarrow> Inr []
            | Inr (Some r) \<Rightarrow> Inr [r])"
  using assms
  by (simp add: parse_diff_files_def split_on_no_sep split: sum.splits option.splits)

lemma post_loop_single:
  "post_loop post pr dc [d] [] 0
     = ([request_for pr dc d], if post (request_for pr dc d) then 1 else 0)"
  by (simp add: Let_def)

lemma post_loop_sent:
  "fst (post_loop post pr dc ds sent n) = sent @ map (request_for pr dc) ds"
  by (induction ds arbitrary: sent n) (simp_all add: Let_def)

lemma main_single:
  assumes "parse_diff_files e csv = Inr [r]"
  shows "main e post pr csv comment =
           Inr ([request_for pr (default_comment_of comment) r],
                if post (request_for pr (default_comment_of comment) r) then 0 else 1)"
  using assms by (simp add: main_def Let_def)

lemma main_sent:
  assumes "main e post pr csv comment = Inr (sent, code)"
  shows "\<exists>ds. parse_diff_files e csv = Inr ds
           \<and> sent = map (request_for pr (default_comment_of comment)) ds"
proof -
  from assms obtain ds where ds: "parse_diff_files e csv = Inr ds"
    by (cases "parse_diff_files e csv") (simp_all add: main_def)
  show ?thesis
  proof (cases "ds = []")
    case True
    with assms ds show ?thesis by (simp add: main_def)
  next
    case False
    with assms ds have "sent = fst (post_loop post pr (default_comment_of comment) ds [] 0)"
      by (auto simp: main_def Let_def split: prod.splits)
    with ds show ?thesis by (simp add: post_loop_sent)
  qed
qed

lemma format_comment_no_line:
  "format_comment c f None = c @ (if f \<noteq> [] then [CHR 0x0A] @ ''File: `'' @ f @ ''`'' else [])"
  by (simp add: format_comment_def)

lemma format_comment_line:
  "format_comment c f (Some n) =
     c @ (if f \<noteq> [] then [CHR 0x0A] @ ''File: `'' @ f @ ''`'' else [])
       @ [CHR 0x0A] @ ''Line: '' @ str_int n"
  by (simp add: format_comment_def)

section \<open>C1: read failures\<close>

text \<open>
  C1, as stated: for every input path the parser returns a record and never fails, and
  the record of an unreadable file is produced, formatted and submitted like any other.
  \<open>parse_diff_file\<close> asks \<open>os.path.exists\<close> first and returns \<open>None\<close> for a path that
  does not exist, so \<open>main\<close> sends nothing for \<open>a.diff\<close> and exits with 1. Both parsers
  catch three exception classes only: the \<open>IsADirectoryError\<close> of a path that is a
  directory leaves them.
\<close>

theorem C1_counterexample:
  "parse_diff_file (missing ''No such file or directory'') ''a.diff'' = Inr None
   \<and> main (missing ''No such file or directory'') accept_all 7 ''a.diff'' None = Inr ([], 1)
   \<and> parse_diff_file_path (directory ''Is a directory'') ''a.diff''
       = Inl (Uncaught_read ''Is a directory'')
   \<and> parse_diff_file (directory ''Is a directory'') ''a.diff''
       = Inl (Uncaught_read ''Is a directory'')"
  by code_simp

text \<open>
  C1, amended: when the read raises \<open>FileNotFoundError\<close>, \<open>PermissionError\<close> or
  \<open>UnicodeDecodeError\<close> with description \<open>m\<close>, \<open>parse_diff_file_path\<close> returns a record
  whose content is \<open>Error reading file: m\<close>; \<open>parse_diff_file\<close> returns that same record
  if \<open>os.path.exists\<close> holds for the path and \<open>None\<close> otherwise; and \<open>main\<close>, given that
  one existing path, sends exactly the request built from the record.
\<close>

theorem C1_caught_failure_keeps_record:
  assumes "read_file e p = File_not_found m \<or> read_file e p = Permission_denied m
             \<or> read_file e p = Unicode_decode m"
  shows "\<exists>r. parse_diff_file_path e p = Inr r
            \<and> content r = ''Error reading file: '' @ m \<and> full_path r = p
            \<and> parse_diff_file e p = (if path_exists e p then Inr (Some r) else Inr None)
            \<and> (path_exists e p \<and> p \<noteq> [] \<and> strip p = p \<and> CHR '','' \<notin> set p
                 \<longrightarrow> main e post pr p comment =
                       Inr ([request_for pr (default_comment_of comment) r],
                            if post (request_for pr (default_comment_of comment) r)
                            then 0 else 1))"
proof -
  from parse_diff_file_path_content[OF read_content_caught[OF assms]]
  obtain r where r: "parse_diff_file_path e p = Inr r"
    "content r = ''Error reading file: '' @ m" "full_path r = p"
    by blast
  have pf: "parse_diff_file e p = (if path_exists e p then Inr (Some r) else Inr None)"
    using r(1) by (simp add: parse_diff_file_missing parse_diff_file_existing)
  have "main e post pr p comment =
          Inr ([request_for pr (default_comment_of comment) r],
               if post (request_for pr (default_comment_of comment) r) then 0 else 1)"
    if "path_exists e p" "p \<noteq> []" "strip p = p" "CHR '','' \<notin> set p"
  proof -
    from parse_diff_files_single[OF that(2-4), of e] pf that(1)
    have "parse_diff_files e p = Inr [r]" by simp
    then show ?thesis by (rule main_single)
  qed
  with r pf show ?thesis by blast
qed

theorem C1_witness:
  "read_file (unreadable ''Permission denied'') ''out/app.py.3-9.diff''
      = Permission_denied ''Permission denied''
   \<and> parse_diff_file_path (unreadable ''Permission denied'') ''out/app.py.3-9.diff''
      = Inr (app_record ''Error reading file: Permission denied'')
   \<and> parse_diff_file (unreadable ''Permission denied'') ''out/app.py.3-9.diff''
      = Inr (Some (app_record ''Error reading file: Permission denied''))
   \<and> main (unreadable ''Permission denied'') accept_all 7 ''out/app.py.3-9.diff'' None
      = Inr ([\<lparr>req_pr = 7, req_file_path = ''app.py'', req_line = Some 3,
               req_comment_text = ''Code review finding'' @ [CHR 0x0A] @ ''File: `app.py`''
                                  @ [CHR 0x0A] @ ''Line: 3''\<rparr>], 0)"
proof -
  have h: "read_file (unreadable ''Permission denied'') ''out/app.py.3-9.diff''
      = Permission_denied ''Permission denied''"
    by (simp add: unreadable_def)
  have a: "parse_diff_file_path (unreadable ''Permission denied'') ''out/app.py.3-9.diff''
      = Inr (app_record ''Error reading file: Permission denied'')"
    by code_simp
  have side: "path_exists (unreadable ''Permission denied'') ''out/app.py.3-9.diff''
      \<and> ''out/app.py.3-9.diff'' \<noteq> [] \<and> strip ''out/app.py.3-9.diff'' = ''out/app.py.3-9.diff''
      \<and> CHR '','' \<notin> set ''out/app.py.3-9.diff''"
    by code_simp
  have rq: "request_for 7 (default_comment_of None)
              (app_record ''Error reading file: Permission denied'')
            = \<lparr>req_pr = 7, req_file_path = ''app.py'', req_line = Some 3,
               req_comment_text = ''Code review finding'' @ [CHR 0x0A] @ ''File: `app.py`''
                                  @ [CHR 0x0A] @ ''Line: 3''\<rparr>"
    by code_simp
  have acc: "\<And>x. accept_all x" by (simp add: accept_all_def)
  from C1_caught_failure_keeps_record[OF disjI2, OF disjI1, OF h, of accept_all 7 None] a side rq acc h
  show ?thesis by auto
qed

section \<open>C2, C3: the \<open>filename\<close> field\<close>

text \<open>
  C2 says that a name without the range suffix loses only a trailing \<open>.diff\<close> and that
  \<open>.diff\<close> elsewhere in the name stays. The line commented \<open>Remove .diff extension\<close> is
  \<open>filename.replace('.diff', '')\<close>, which removes every occurrence: \<open>archive.diff.tar\<close>,
  a name with no \<open>.diff\<close> extension at all, becomes \<open>archive.tar\<close> in both parsers.
\<close>

theorem C2_diff_removed_inside_name:
  "parse_diff_file_path (readable ''x'') ''archive.diff.tar'' =
     Inr \<lparr>filename = ''archive.tar'', range_str = None, start_line = None, end_line = None,
          full_path = ''archive.diff.tar'', content = ''x''\<rparr>
   \<and> parse_diff_file (readable ''x'') ''archive.diff.tar'' =
     Inr (Some \<lparr>filename = ''archive.tar'', range_str = None, start_line = None,
                end_line = None, full_path = ''archive.diff.tar'', content = ''x''\<rparr>)"
  by code_simp

text \<open>
  C3 says that a name ending in \<open>.d1-d2.diff\<close> gets the range \<open>(d1, d2)\<close> and loses exactly
  that trailing range marker, earlier segments staying in place. The range is right, but
  the marker is removed with \<open>replace\<close> as well: in \<open>a.1-2.b.1-2.diff\<close> the earlier
  segment \<open>.1-2\<close> goes too and the field is \<open>a.b\<close>, not \<open>a.1-2.b\<close>.
\<close>

theorem C3_range_marker_removed_inside_name:
  "parse_diff_file_path (readable ''x'') ''a.1-2.b.1-2.diff'' =
     Inr \<lparr>filename = ''a.b'', range_str = Some ''1-2'', start_line = Some 1, end_line = Some 2,
          full_path = ''a.1-2.b.1-2.diff'', content = ''x''\<rparr>
   \<and> parse_diff_file (readable ''x'') ''a.1-2.b.1-2.diff'' =
     Inr (Some \<lparr>filename = ''a.b'', range_str = Some ''1-2'', start_line = Some 1,
                end_line = Some 2, full_path = ''a.1-2.b.1-2.diff'', content = ''x''\<rparr>)"
  by code_simp

section \<open>C4: the batch\<close>

text \<open>
  C4, as stated: the batch parser produces exactly one record per non-empty trimmed
  token, three for \<open>a.diff, b.1-5.diff , ,c.9-10.diff\<close>. \<open>parse_diff_files\<close> skips every
  token for which \<open>parse_diff_file\<close> returns \<open>None\<close>: where none of the three files
  exists it returns no record.
\<close>

theorem C4_counterexample:
  "parse_diff_files (missing ''No such file or directory'') ''a.diff, b.1-5.diff , ,c.9-10.diff''
     = Inr []"
  by code_simp

text \<open>
  C4, amended: provided no read raises an exception the parsers do not catch,
  \<open>parse_diff_files\<close> splits on commas, trims each token, drops the empty ones and the
  ones \<open>os.path.exists\<close> denies, and returns the records of the remaining tokens, one
  each, in their order; the loop of parse-diff-files.py parses every non-empty trimmed
  token, one record each, in order. Where the three files exist the example gives the
  records of \<open>a.diff\<close> (no range), \<open>b\<close> (1 to 5) and \<open>c\<close> (9 to 10).
\<close>

theorem C4_one_record_per_existing_token:
  assumes "\<forall>t \<in> set (map strip (split_on CHR '','' csv)). \<forall>m. read_file e t \<noteq> Other_failure m"
  shows "(\<exists>rs. parse_diff_files e csv = Inr rs
            \<and> map (parse_diff_file e)
                  (filter (\<lambda>t. t \<noteq> [] \<and> path_exists e t) (map strip (split_on CHR '','' csv)))
                = map (\<lambda>r. Inr (Some r)) rs)
       \<and> (\<exists>rs. main_parsed e csv = Inr rs
            \<and> map (parse_diff_file_path e)
                  (filter (\<lambda>t. t \<noteq> []) (map strip (split_on CHR '','' csv)))
                = map Inr rs)"
  using parse_loop_records[OF assms, of "[]"] main_loop_records[OF assms]
  by (simp add: parse_diff_files_def main_parsed_def)

theorem C4_witness:
  "map strip (split_on CHR '','' ''a.diff, b.1-5.diff , ,c.9-10.diff'')
     = [''a.diff'', ''b.1-5.diff'', [], ''c.9-10.diff'']
   \<and> parse_diff_files (readable ''x'') ''a.diff, b.1-5.diff , ,c.9-10.diff''
     = Inr (abc_records ''x'')
   \<and> main_parsed (missing ''gone'') ''a.diff, b.1-5.diff , ,c.9-10.diff''
     = Inr (abc_records ''Error reading file: gone'')"
proof -
  have toks: "map strip (split_on CHR '','' ''a.diff, b.1-5.diff , ,c.9-10.diff'')
     = [''a.diff'', ''b.1-5.diff'', [], ''c.9-10.diff'']"
    by code_simp
  have h1: "\<forall>t \<in> set (map strip (split_on CHR '','' ''a.diff, b.1-5.diff , ,c.9-10.diff'')).
             \<forall>m. read_file (readable ''x'') t \<noteq> Other_failure m"
    by (simp add: readable_def)
  have h2: "\<forall>t \<in> set (map strip (split_on CHR '','' ''a.diff, b.1-5.diff , ,c.9-10.diff'')).
             \<forall>m. read_file (missing ''gone'') t \<noteq> Other_failure m"
    by (simp add: missing_def)
  have p1: "map (parse_diff_file (readable ''x''))
              (filter (\<lambda>t. t \<noteq> [] \<and> path_exists (readable ''x'') t)
                 [''a.diff'', ''b.1-5.diff'', [], ''c.9-10.diff''])
            = map (\<lambda>r. Inr (Some r)) (abc_records ''x'')"
    by code_simp
  have p2: "map (parse_diff_file_path (missing ''gone''))
              (filter (\<lambda>t. t \<noteq> []) [''a.diff'', ''b.1-5.diff'', [], ''c.9-10.diff''])
            = map Inr (abc_records ''Error reading file: gone'')"
    by code_simp
  have i1: "inj (\<lambda>r::diff_info. (Inr (Some r) :: py_error + diff_info option))"
    by (simp add: inj_def)
  have i2: "inj (Inr :: diff_info \<Rightarrow> py_error + diff_info)"
    by (simp add: inj_def)
  from C4_one_record_per_existing_token[OF h1] obtain rs where
    "parse_diff_files (readable ''x'') ''a.diff, b.1-5.diff , ,c.9-10.diff'' = Inr rs"
    "map (parse_diff_file (readable ''x''))
       (filter (\<lambda>t. t \<noteq> [] \<and> path_exists (readable ''x'') t)
          (map strip (split_on CHR '','' ''a.diff, b.1-5.diff , ,c.9-10.diff'')))
     = map (\<lambda>r. Inr (Some r)) rs"
    by blast
  with toks p1 have r1: "parse_diff_files (readable ''x'') ''a.diff, b.1-5.diff , ,c.9-10.diff''
     = Inr (abc_records ''x'')"
    by (simp add: inj_map_eq_map[OF i1])
  from C4_one_record_per_existing_token[OF h2] obtain qs where
    "main_parsed (missing ''gone'') ''a.diff, b.1-5.diff , ,c.9-10.diff'' = Inr qs"
    "map (parse_diff_file_path (missing ''gone''))
       (filter (\<lambda>t. t \<noteq> []) (map strip (split_on CHR '','' ''a.diff, b.1-5.diff , ,c.9-10.diff'')))
     = map Inr qs"
    by blast
  with toks p2 have r2: "main_parsed (missing ''gone'') ''a.diff, b.1-5.diff , ,c.9-10.diff''
     = Inr (abc_records ''Error reading file: gone'')"
    by (simp add: inj_map_eq_map[OF i2])
  from toks r1 r2 show ?thesis by simp
qed

section \<open>C5, C8, C9: the line range\<close>

text \<open>
  C5, as stated: a line range, when present, is a pair of positive integers with
  \<open>start_line \<le> end_line\<close>. The parsers do not check the two numbers: \<open>a.5-2.diff\<close> gives
  the range \<open>(5, 2)\<close> and \<open>a.0-0.diff\<close> gives \<open>(0, 0)\<close>.
\<close>

theorem C5_counterexample:
  "parse_diff_file_path (readable ''x'') ''a.5-2.diff'' =
     Inr \<lparr>filename = ''a'', range_str = Some ''5-2'', start_line = Some 5, end_line = Some 2,
          full_path = ''a.5-2.diff'', content = ''x''\<rparr>
   \<and> parse_diff_file (readable ''x'') ''a.0-0.diff'' =
     Inr (Some \<lparr>filename = ''a'', range_str = Some ''0-0'', start_line = Some 0, end_line = Some 0,
          full_path = ''a.0-0.diff'', content = ''x''\<rparr>)"
  by code_simp

text \<open>
  C5, amended: a record of either parser has no range, no start and no end, or its
  file name ends with \<open>.d1-d2.diff\<close> (before an optional final newline) for two
  non-empty digit groups, \<open>range\<close> is \<open>d1-d2\<close>, \<open>start_line\<close> and \<open>end_line\<close> are the
  decimal values of \<open>d1\<close> and \<open>d2\<close>, and both are non-negative. Nothing relates the two
  values to each other and either may be zero.
\<close>

theorem C5_range_is_decimal_value:
  assumes "parse_diff_file_path e p = Inr r \<or> parse_diff_file e p = Inr (Some r)"
  shows "(range_str r = None \<and> start_line r = None \<and> end_line r = None)
       \<or> (\<exists>stem d1 d2 nl.
             basename p = stem @ CHR ''.'' # d1 @ CHR ''-'' # d2 @ ''.diff'' @ nl
           \<and> (nl = [] \<or> nl = [CHR 0x0A])
           \<and> d1 \<noteq> [] \<and> d2 \<noteq> [] \<and> list_all is_digit d1 \<and> list_all is_digit d2
           \<and> range_str r = Some (d1 @ CHR ''-'' # d2)
           \<and> start_line r = Some (int_of_digits d1) \<and> end_line r = Some (int_of_digits d2)
           \<and> 0 \<le> int_of_digits d1 \<and> 0 \<le> int_of_digits d2)"
proof -
  from assms have pr: "parse_diff_file_path e p = Inr r"
    using parse_diff_file_SomeD by blast
  then obtain body where rd: "read_content e p = Inr body"
    by (cases "read_content e p") (simp_all add: parse_diff_file_path_error)
  show ?thesis
  proof (cases "re_search (basename p)")
    case None
    from parse_diff_file_path_norange[OF None rd] pr show ?thesis by auto
  next
    case (Some rs)
    from re_search_group[OF Some] obtain stem d1 d2 nl where
      g: "basename p = stem @ CHR ''.'' # d1 @ CHR ''-'' # d2 @ ''.diff'' @ nl"
         "nl = [] \<or> nl = [CHR 0x0A]"
         "rs = d1 @ CHR ''-'' # d2" "d1 \<noteq> []" "d2 \<noteq> []"
         "list_all is_digit d1" "list_all is_digit d2"
      by blast
    from Some g have s: "re_search (basename p) = Some (d1 @ CHR ''-'' # d2)" by simp
    from parse_diff_file_path_range[OF s g(4-7) rd] pr
    have "range_str r = Some (d1 @ CHR ''-'' # d2)"
      "start_line r = Some (int_of_digits d1)" "end_line r = Some (int_of_digits d2)"
      by auto
    with g int_of_digits_nonneg[OF g(6)] int_of_digits_nonneg[OF g(7)]
    show ?thesis by blast
  qed
qed

theorem C5_witness:
  "parse_diff_file_path (readable ''x'') ''a.5-2.diff'' =
     Inr \<lparr>filename = ''a'', range_str = Some ''5-2'', start_line = Some 5, end_line = Some 2,
          full_path = ''a.5-2.diff'', content = ''x''\<rparr>
   \<and> basename ''a.5-2.diff'' = ''a'' @ CHR ''.'' # ''5'' @ CHR ''-'' # ''2'' @ ''.diff'' @ []
   \<and> int_of_digits ''5'' = 5 \<and> int_of_digits ''2'' = 2
   \<and> (0::int) \<le> 5 \<and> (0::int) \<le> 2"
proof -
  have a: "parse_diff_file_path (readable ''x'') ''a.5-2.diff'' =
     Inr \<lparr>filename = ''a'', range_str = Some ''5-2'', start_line = Some 5, end_line = Some 2,
          full_path = ''a.5-2.diff'', content = ''x''\<rparr>"
    by code_simp
  have b: "basename ''a.5-2.diff'' = ''a'' @ CHR ''.'' # ''5'' @ CHR ''-'' # ''2'' @ ''.diff'' @ []"
    by code_simp
  have c: "int_of_digits ''5'' = 5 \<and> int_of_digits ''2'' = 2" by code_simp
  from C5_range_is_decimal_value[OF disjI1, OF a] a b c show ?thesis by simp
qed

text \<open>
  C8. Two runs of either parser on the same path give the same \<open>filename\<close>, \<open>range\<close>,
  \<open>start_line\<close> and \<open>end_line\<close>, whatever the two file systems hold at that path:
  whenever both runs return a record, the four fields agree. Only \<open>content\<close> depends
  on what was read.
\<close>

theorem C8_fields_from_path_only:
  "(parse_diff_file_path e1 p = Inr r1 \<and> parse_diff_file_path e2 p = Inr r2
      \<longrightarrow> filename r1 = filename r2 \<and> range_str r1 = range_str r2
          \<and> start_line r1 = start_line r2 \<and> end_line r1 = end_line r2)
   \<and> (parse_diff_file e1 p = Inr (Some q1) \<and> parse_diff_file e2 p = Inr (Some q2)
      \<longrightarrow> filename q1 = filename q2 \<and> range_str q1 = range_str q2
          \<and> start_line q1 = start_line q2 \<and> end_line q1 = end_line q2)"
proof -
  have path: "filename a = filename b \<and> range_str a = range_str b
          \<and> start_line a = start_line b \<and> end_line a = end_line b"
    if a: "parse_diff_file_path e1 p = Inr a" and b: "parse_diff_file_path e2 p = Inr b" for a b
  proof -
    from b obtain body where rd: "read_content e2 p = Inr body"
      by (cases "read_content e2 p") (simp_all add: parse_diff_file_path_error)
    from parse_diff_file_path_other_content[OF a rd] b have "b = a\<lparr>content := body\<rparr>" by simp
    then show ?thesis by simp
  qed
  show ?thesis
    using path[of r1 r2] path[of q1 q2] parse_diff_file_SomeD[of e1 p q1]
      parse_diff_file_SomeD[of e2 p q2]
    by blast
qed

theorem C8_witness:
  "parse_diff_file_path (readable ''old text'') ''out/app.py.3-9.diff''
     = Inr (app_record ''old text'')
   \<and> parse_diff_file_path (unreadable ''denied'') ''out/app.py.3-9.diff''
     = Inr (app_record ''Error reading file: denied'')
   \<and> parse_diff_file (readable ''old text'') ''out/app.py.3-9.diff''
     = Inr (Some (app_record ''old text''))
   \<and> parse_diff_file (unreadable ''denied'') ''out/app.py.3-9.diff''
     = Inr (Some (app_record ''Error reading file: denied''))
   \<and> filename (app_record ''old text'') = filename (app_record ''Error reading file: denied'')
   \<and> range_str (app_record ''old text'') = range_str (app_record ''Error reading file: denied'')
   \<and> start_line (app_record ''old text'') = start_line (app_record ''Error reading file: denied'')
   \<and> end_line (app_record ''old text'') = end_line (app_record ''Error reading file: denied'')"
proof -
  have a: "parse_diff_file_path (readable ''old text'') ''out/app.py.3-9.diff''
     = Inr (app_record ''old text'')"
    by code_simp
  have b: "parse_diff_file_path (unreadable ''denied'') ''out/app.py.3-9.diff''
     = Inr (app_record ''Error reading file: denied'')"
    by code_simp
  have c: "parse_diff_file (readable ''old text'') ''out/app.py.3-9.diff''
     = Inr (Some (app_record ''old text''))"
    by code_simp
  have d: "parse_diff_file (unreadable ''denied'') ''out/app.py.3-9.diff''
     = Inr (Some (app_record ''Error reading file: denied''))"
    by code_simp
  from C8_fields_from_path_only[of "readable ''old text''" "''out/app.py.3-9.diff''"
         "app_record ''old text''" "unreadable ''denied''"
         "app_record ''Error reading file: denied''"
         "app_record ''old text''" "app_record ''Error reading file: denied''"] a b c d
  show ?thesis by blast
qed

text \<open>
  C9. When \<open>os.path.exists\<close> holds for the path and the read has the same outcome in
  both runs, \<open>parse_diff_file\<close> returns exactly the record \<open>parse_diff_file_path\<close>
  returns (all six fields), and raises exactly when it raises.
\<close>

theorem C9_parsers_agree:
  assumes "path_exists e1 p" and "read_file e1 p = read_file e2 p"
  shows "parse_diff_file e1 p =
           (case parse_diff_file_path e2 p of Inl err \<Rightarrow> Inl err | Inr r \<Rightarrow> Inr (Some r))"
  using parse_diff_file_existing[OF assms(1)] parse_diff_file_path_cong[OF assms(2)] by simp

theorem C9_witness:
  "path_exists (readable ''+++ b/app.py'') ''out/app.py.3-9.diff''
   \<and> read_file (readable ''+++ b/app.py'') ''out/app.py.3-9.diff''
       = read_file (unlisted ''+++ b/app.py'') ''out/app.py.3-9.diff''
   \<and> parse_diff_file_path (unlisted ''+++ b/app.py'') ''out/app.py.3-9.diff''
       = Inr (app_record ''+++ b/app.py'')
   \<and> parse_diff_file (readable ''+++ b/app.py'') ''out/app.py.3-9.diff''
       = Inr (Some (app_record ''+++ b/app.py''))"
proof -
  have ex: "path_exists (readable ''+++ b/app.py'') ''out/app.py.3-9.diff''"
    by (simp add: readable_def)
  have rd: "read_file (readable ''+++ b/app.py'') ''out/app.py.3-9.diff''
       = read_file (unlisted ''+++ b/app.py'') ''out/app.py.3-9.diff''"
    by (simp add: readable_def unlisted_def)
  have a: "parse_diff_file_path (unlisted ''+++ b/app.py'') ''out/app.py.3-9.diff''
       = Inr (app_record ''+++ b/app.py'')"
    by code_simp
  from C9_parsers_agree[OF ex rd] a ex rd show ?thesis by simp
qed

section \<open>C6, C7: the comment and the line sent\<close>

text \<open>
  C6. Every request \<open>main\<close> sends is built from a record of \<open>parse_diff_files\<close>. For a
  record without a range the formatter is handed no line (\<open>display_line\<close>), so the
  comment text is the comment, the file line and the fenced block if there is one, with
  no line-number line, and the line submitted is 1. For a record with a range the
  formatter and the submission both get \<open>start_line\<close>, and the text has the line-number
  line.
\<close>

theorem C6_display_and_submission_line:
  assumes "main e post pr csv comment = Inr (sent, code)"
  shows "\<exists>ds. parse_diff_files e csv = Inr ds
           \<and> sent = map (request_for pr (default_comment_of comment)) ds
           \<and> (\<forall>d \<in> set ds.
                 (range_str d = None \<longrightarrow>
                    display_line d = None
                    \<and> req_line (request_for pr c d) = Some 1
                    \<and> req_comment_text (request_for pr c d)
                        = c @ (if filename d \<noteq> [] then [CHR 0x0A] @ ''File: `'' @ filename d @ ''`''
                               else [])
                            @ (if has_snippet d
                               then [CHR 0x0A, CHR 0x0A] @ ''```'' @ [CHR 0x0A] @ snippet d
                                    @ [CHR 0x0A] @ ''```''
                               else []))
               \<and> (range_str d \<noteq> None \<longrightarrow>
                    (\<exists>n. start_line d = Some n \<and> display_line d = Some n
                      \<and> req_line (request_for pr c d) = Some n
                      \<and> req_comment_text (request_for pr c d)
                          = c @ (if filename d \<noteq> [] then [CHR 0x0A] @ ''File: `'' @ filename d @ ''`''
                                 else [])
                              @ [CHR 0x0A] @ ''Line: '' @ str_int n
                              @ (if has_snippet d
                                 then [CHR 0x0A, CHR 0x0A] @ ''```'' @ [CHR 0x0A] @ snippet d
                                      @ [CHR 0x0A] @ ''```''
                                 else []))))"
proof -
  from main_sent[OF assms] obtain ds where ds: "parse_diff_files e csv = Inr ds"
    "sent = map (request_for pr (default_comment_of comment)) ds"
    by blast
  have "(range_str d = None \<longrightarrow>
                    display_line d = None
                    \<and> req_line (request_for pr c d) = Some 1
                    \<and> req_comment_text (request_for pr c d)
                        = c @ (if filename d \<noteq> [] then [CHR 0x0A] @ ''File: `'' @ filename d @ ''`''
                               else [])
                            @ (if has_snippet d
                               then [CHR 0x0A, CHR 0x0A] @ ''```'' @ [CHR 0x0A] @ snippet d
                                    @ [CHR 0x0A] @ ''```''
                               else []))
               \<and> (range_str d \<noteq> None \<longrightarrow>
                    (\<exists>n. start_line d = Some n \<and> display_line d = Some n
                      \<and> req_line (request_for pr c d) = Some n
                      \<and> req_comment_text (request_for pr c d)
                          = c @ (if filename d \<noteq> [] then [CHR 0x0A] @ ''File: `'' @ filename d @ ''`''
                                 else [])
                              @ [CHR 0x0A] @ ''Line: '' @ str_int n
                              @ (if has_snippet d
                                 then [CHR 0x0A, CHR 0x0A] @ ''```'' @ [CHR 0x0A] @ snippet d
                                      @ [CHR 0x0A] @ ''```''
                                 else [])))"
    if "d \<in> set ds" for d
  proof -
    from parse_diff_files_origin[OF ds(1) that] obtain p where
      "parse_diff_file e p = Inr (Some d)" by blast
    from parsed_range_cases[OF this] show ?thesis
    proof
      assume "range_str d = None \<and> start_line d = None"
      then show ?thesis
        by (simp add: display_line_def line_number_def request_for_def truthy_def
            comment_text_def format_comment_no_line)
    next
      assume "\<exists>rs n. range_str d = Some rs \<and> rs \<noteq> [] \<and> start_line d = Some n"
      then obtain rs n where "range_str d = Some rs" "rs \<noteq> []" "start_line d = Some n" by blast
      then show ?thesis
        by (simp add: display_line_def line_number_def request_for_def truthy_def
            comment_text_def format_comment_line)
    qed
  qed
  with ds show ?thesis by blast
qed

theorem C6_witness:
  "main (readable ''x'') accept_all 7 ''a.diff, out/app.py.3-9.diff'' None =
     Inr ([\<lparr>req_pr = 7, req_file_path = ''a'', req_line = Some 1,
            req_comment_text = join [CHR 0x0A] [''Code review finding'', ''File: `a`'']\<rparr>,
           \<lparr>req_pr = 7, req_file_path = ''app.py'', req_line = Some 3,
            req_comment_text =
              join [CHR 0x0A] [''Code review finding'', ''File: `app.py`'', ''Line: 3'']\<rparr>], 0)
   \<and> parse_diff_files (readable ''x'') ''a.diff, out/app.py.3-9.diff''
       = Inr [a_record ''x'', app_record ''x'']
   \<and> display_line (a_record ''x'') = None
   \<and> req_line (request_for 7 ''msg'' (a_record ''x'')) = Some 1
   \<and> display_line (app_record ''x'') = Some 3
   \<and> req_line (request_for 7 ''msg'' (app_record ''x'')) = Some 3"
proof -
  have m: "main (readable ''x'') accept_all 7 ''a.diff, out/app.py.3-9.diff'' None =
     Inr ([\<lparr>req_pr = 7, req_file_path = ''a'', req_line = Some 1,
            req_comment_text = join [CHR 0x0A] [''Code review finding'', ''File: `a`'']\<rparr>,
           \<lparr>req_pr = 7, req_file_path = ''app.py'', req_line = Some 3,
            req_comment_text =
              join [CHR 0x0A] [''Code review finding'', ''File: `app.py`'', ''Line: 3'']\<rparr>], 0)"
    by code_simp
  have p: "parse_diff_files (readable ''x'') ''a.diff, out/app.py.3-9.diff''
       = Inr [a_record ''x'', app_record ''x'']"
    by code_simp
  from C6_display_and_submission_line[OF m, of "''msg''"] p
  have a: "range_str (a_record ''x'') = None \<longrightarrow>
             display_line (a_record ''x'') = None
             \<and> req_line (request_for 7 ''msg'' (a_record ''x'')) = Some 1"
    and b: "range_str (app_record ''x'') \<noteq> None \<longrightarrow>
             (\<exists>n. start_line (app_record ''x'') = Some n
                \<and> display_line (app_record ''x'') = Some n
                \<and> req_line (request_for 7 ''msg'' (app_record ''x'')) = Some n)"
    by auto
  have "range_str (a_record ''x'') = None" by (simp add: a_record_def)
  with a have a': "display_line (a_record ''x'') = None
             \<and> req_line (request_for 7 ''msg'' (a_record ''x'')) = Some 1"
    by blast
  have "range_str (app_record ''x'') \<noteq> None" "start_line (app_record ''x'') = Some 3"
    by (simp_all add: app_record_def)
  with b have b': "display_line (app_record ''x'') = Some 3
             \<and> req_line (request_for 7 ''msg'' (app_record ''x'')) = Some 3"
    by auto
  from m p a' b' show ?thesis by blast
qed

text \<open>
  C7. The fenced block is appended exactly when the content is non-empty and contains
  \<open>+++\<close>; it comes after the output of the formatter (comment, file line, line-number
  line), and the lines between the fences are the first eight lines of the content, or
  all of them when there are fewer.
\<close>

theorem C7_snippet_block:
  "(has_snippet d \<longleftrightarrow> content d \<noteq> [] \<and> (\<exists>u v. content d = u @ ''+++'' @ v))
   \<and> (has_snippet d \<longrightarrow>
        comment_text c d = format_comment c (filename d) (display_line d)
                           @ [CHR 0x0A, CHR 0x0A] @ ''```'' @ [CHR 0x0A] @ snippet d
                           @ [CHR 0x0A] @ ''```'')
   \<and> (\<not> has_snippet d \<longrightarrow> comment_text c d = format_comment c (filename d) (display_line d))
   \<and> split_on (CHR 0x0A) (snippet d) = take 8 (split_on (CHR 0x0A) (content d))
   \<and> length (split_on (CHR 0x0A) (snippet d)) = min 8 (length (split_on (CHR 0x0A) (content d)))"
proof -
  have "has_snippet d \<longleftrightarrow> content d \<noteq> [] \<and> (\<exists>u v. content d = u @ ''+++'' @ v)"
    unfolding has_snippet_def contains_iff ..
  moreover have "has_snippet d \<longrightarrow>
        comment_text c d = format_comment c (filename d) (display_line d)
                           @ [CHR 0x0A, CHR 0x0A] @ ''```'' @ [CHR 0x0A] @ snippet d
                           @ [CHR 0x0A] @ ''```''"
    by (simp add: comment_text_def)
  moreover have "\<not> has_snippet d \<longrightarrow>
        comment_text c d = format_comment c (filename d) (display_line d)"
    by (simp add: comment_text_def)
  moreover note snippet_lines[of d]
  moreover have "length (split_on (CHR 0x0A) (snippet d))
                   = min 8 (length (split_on (CHR 0x0A) (content d)))"
    by (simp add: snippet_lines min.commute)
  ultimately show ?thesis by blast
qed

theorem C7_witness:
  "has_snippet (app_record ten_lines)
   \<and> length (split_on (CHR 0x0A) (content (app_record ten_lines))) = 10
   \<and> length (split_on (CHR 0x0A) (snippet (app_record ten_lines))) = 8
   \<and> comment_text ''msg'' (app_record ten_lines) =
       join [CHR 0x0A]
         [''msg'', ''File: `app.py`'', ''Line: 3'', [], ''```'',
          ''--- a/app.py'', ''+++ b/app.py'', ''@@ -3,7 +3,7 @@'', ''l4'', ''l5'', ''l6'', ''l7'',
          ''l8'', ''```'']
   \<and> \<not> has_snippet (app_record ''two'')
   \<and> comment_text ''msg'' (app_record ''two'') =
       join [CHR 0x0A] [''msg'', ''File: `app.py`'', ''Line: 3'']"
proof -
  have hs: "has_snippet (app_record ten_lines)" by code_simp
  have ns: "\<not> has_snippet (app_record ''two'')" by code_simp
  have len: "length (split_on (CHR 0x0A) (content (app_record ten_lines))) = 10" by code_simp
  have fc: "format_comment ''msg'' (filename (app_record ten_lines))
              (display_line (app_record ten_lines))
            = join [CHR 0x0A] [''msg'', ''File: `app.py`'', ''Line: 3'']"
    by code_simp
  have fc2: "format_comment ''msg'' (filename (app_record ''two''))
              (display_line (app_record ''two''))
            = join [CHR 0x0A] [''msg'', ''File: `app.py`'', ''Line: 3'']"
    by code_simp
  have sn: "snippet (app_record ten_lines) =
              join [CHR 0x0A] [''--- a/app.py'', ''+++ b/app.py'', ''@@ -3,7 +3,7 @@'', ''l4'',
                               ''l5'', ''l6'', ''l7'', ''l8'']"
    by code_simp
  note c7 = C7_snippet_block[of "app_record ten_lines" "''msg''"]
  from c7 hs have "comment_text ''msg'' (app_record ten_lines)
      = format_comment ''msg'' (filename (app_record ten_lines))
          (display_line (app_record ten_lines))
        @ [CHR 0x0A, CHR 0x0A] @ ''```'' @ [CHR 0x0A] @ snippet (app_record ten_lines)
        @ [CHR 0x0A] @ ''```''"
    by blast
  then have whole: "comment_text ''msg'' (app_record ten_lines) =
       join [CHR 0x0A]
         [''msg'', ''File: `app.py`'', ''Line: 3'', [], ''```'',
          ''--- a/app.py'', ''+++ b/app.py'', ''@@ -3,7 +3,7 @@'', ''l4'', ''l5'', ''l6'', ''l7'',
          ''l8'', ''```'']"
    by (simp only: fc sn) simp
  from c7 have "length (split_on (CHR 0x0A) (snippet (app_record ten_lines)))
      = min 8 (length (split_on (CHR 0x0A) (content (app_record ten_lines))))"
    by blast
  with len have l8: "length (split_on (CHR 0x0A) (snippet (app_record ten_lines))) = 8"
    by simp
  from whole l8 have one: "length (split_on (CHR 0x0A) (snippet (app_record ten_lines))) = 8
     \<and> comment_text ''msg'' (app_record ten_lines) =
       join [CHR 0x0A]
         [''msg'', ''File: `app.py`'', ''Line: 3'', [], ''```'',
          ''--- a/app.py'', ''+++ b/app.py'', ''@@ -3,7 +3,7 @@'', ''l4'', ''l5'', ''l6'', ''l7'',
          ''l8'', ''```'']"
    by blast
  from C7_snippet_block[of "app_record ''two''" "''msg''"] ns
  have "comment_text ''msg'' (app_record ''two'')
      = format_comment ''msg'' (filename (app_record ''two'')) (display_line (app_record ''two''))"
    by blast
  with fc2 have two: "comment_text ''msg'' (app_record ''two'') =
       join [CHR 0x0A] [''msg'', ''File: `app.py`'', ''Line: 3'']"
    by simp
  from hs ns len one two show ?thesis by blast
qed

section \<open>C10: \<open>.diff\<close> inside the \<open>filename\<close> field\<close>

text \<open>
  C10, as stated: the \<open>filename\<close> field never contains \<open>.diff\<close>. \<open>replace\<close> scans the
  name once and does not look at the text it has produced: removing the \<open>.diff\<close> in the
  middle of \<open>.d.diffiff\<close> joins \<open>.d\<close> and \<open>iff\<close>, and the field is \<open>.diff\<close>.
\<close>

theorem C10_counterexample:
  "parse_diff_file_path (readable ''x'') ''.d.diffiff'' =
     Inr \<lparr>filename = ''.diff'', range_str = None, start_line = None, end_line = None,
          full_path = ''.d.diffiff'', content = ''x''\<rparr>
   \<and> contains ''.diff'' ''.diff''"
  by code_simp

text \<open>
  C10, amended: when \<open>.diff\<close> occurs in the file name only as its last five characters
  (or not at all) and, for a record with a range, the text \<open>.d1-d2\<close> occurs in the name
  only directly before that ending, the \<open>filename\<close> field contains no \<open>.diff\<close>; it is
  the name without the ending and without the range marker. Names with further
  occurrences are outside this statement.
\<close>

theorem C10_no_diff_when_only_trailing:
  assumes "parse_diff_file_path e p = Inr r \<or> parse_diff_file e p = Inr (Some r)"
    and "\<forall>u v. basename p = u @ ''.diff'' @ v \<longrightarrow> v = []"
    and "\<forall>rs u v. range_str r = Some rs \<longrightarrow> basename p = u @ CHR ''.'' # rs @ v \<longrightarrow> v = ''.diff''"
  shows "\<not> contains ''.diff'' (filename r)
       \<and> (basename p = filename r \<or> basename p = filename r @ ''.diff''
          \<or> (\<exists>rs. range_str r = Some rs \<and> basename p = filename r @ CHR ''.'' # rs @ ''.diff''))"
proof -
  from assms(1) have pr: "parse_diff_file_path e p = Inr r"
    using parse_diff_file_SomeD by blast
  then obtain body where rd: "read_content e p = Inr body"
    by (cases "read_content e p") (simp_all add: parse_diff_file_path_error)
  show ?thesis
  proof (cases "re_search (basename p)")
    case None
    from parse_diff_file_path_norange[OF None rd] pr
    have fn: "filename r = py_replace ''.diff'' [] (basename p)" by auto
    show ?thesis
    proof (cases "contains ''.diff'' (basename p)")
      case False
      with fn have "filename r = basename p" by (simp add: py_replace_absent)
      with False show ?thesis by simp
    next
      case True
      then obtain u v where uv: "basename p = u @ ''.diff'' @ v" by (auto simp: contains_iff)
      with assms(2) have v: "v = []" by blast
      with uv have bn: "basename p = u @ ''.diff''" by simp
      have only: "\<forall>a b. u @ ''.diff'' = a @ ''.diff'' @ b \<longrightarrow> b = []"
        using assms(2) bn by simp
      from py_replace_suffix[OF _ only, of "[]"] fn bn have f: "filename r = u" by simp
      have "\<forall>a b. u @ ''.diff'' @ [] = a @ ''.diff'' @ b \<longrightarrow> b = []"
        using only by simp
      from only_suffix_stem[OF _ this] have "\<not> contains ''.diff'' u" by simp
      with f bn show ?thesis by simp
    qed
  next
    case (Some rs)
    from re_search_group[OF Some] obtain stem d1 d2 nl where
      g: "basename p = stem @ CHR ''.'' # d1 @ CHR ''-'' # d2 @ ''.diff'' @ nl"
         "nl = [] \<or> nl = [CHR 0x0A]"
         "rs = d1 @ CHR ''-'' # d2" "d1 \<noteq> []" "d2 \<noteq> []"
         "list_all is_digit d1" "list_all is_digit d2"
      by blast
    from Some g have s: "re_search (basename p) = Some (d1 @ CHR ''-'' # d2)" by simp
    from parse_diff_file_path_range[OF s g(4-7) rd] pr g(3)
    have fn: "filename r = py_replace (CHR ''.'' # rs) [] (py_replace ''.diff'' [] (basename p))"
      and rg: "range_str r = Some rs"
      by auto
    from g(1,3) have "basename p = (stem @ CHR ''.'' # rs) @ ''.diff'' @ nl" by simp
    with assms(2) have nl: "nl = []" by blast
    with g(1,3) have bn: "basename p = (stem @ CHR ''.'' # rs) @ ''.diff''" by simp
    have only: "\<forall>a b. (stem @ CHR ''.'' # rs) @ ''.diff'' = a @ ''.diff'' @ b \<longrightarrow> b = []"
      using assms(2) bn by simp
    from py_replace_suffix[OF _ only, of "[]"] bn
    have base: "py_replace ''.diff'' [] (basename p) = stem @ (CHR ''.'' # rs)" by simp
    have only_rs: "\<forall>a b. stem @ (CHR ''.'' # rs) @ ''.diff'' = a @ (CHR ''.'' # rs) @ b \<longrightarrow> b = ''.diff''"
      using assms(3) rg bn by simp
    have "\<forall>a b. stem @ (CHR ''.'' # rs) = a @ (CHR ''.'' # rs) @ b \<longrightarrow> b = []"
    proof (intro allI impI)
      fix a b assume "stem @ (CHR ''.'' # rs) = a @ (CHR ''.'' # rs) @ b"
      then have "stem @ (CHR ''.'' # rs) @ ''.diff'' = a @ (CHR ''.'' # rs) @ (b @ ''.diff'')"
        by simp
      with only_rs have "b @ ''.diff'' = ''.diff''" by blast
      then show "b = []" by simp
    qed
    from py_replace_suffix[OF _ this, of "[]"] fn base have f: "filename r = stem" by simp
    have "\<not> contains ''.diff'' stem"
    proof
      assume "contains ''.diff'' stem"
      then obtain a b where "stem = a @ ''.diff'' @ b" by (auto simp: contains_iff)
      with bn have "basename p = a @ ''.diff'' @ (b @ CHR ''.'' # rs @ ''.diff'')" by simp
      with assms(2) have "b @ CHR ''.'' # rs @ ''.diff'' = []" by blast
      then show False by simp
    qed
    with f rg bn show ?thesis by simp
  qed
qed

theorem C10_witness:
  "parse_diff_file_path (readable ''x'') ''out/app.py.3-9.diff'' = Inr (app_record ''x'')
   \<and> basename ''out/app.py.3-9.diff'' = filename (app_record ''x'') @ CHR ''.'' # ''3-9'' @ ''.diff''
   \<and> \<not> contains ''.diff'' (filename (app_record ''x''))"
proof -
  have a: "parse_diff_file_path (readable ''x'') ''out/app.py.3-9.diff'' = Inr (app_record ''x'')"
    by code_simp
  have bn: "basename ''out/app.py.3-9.diff'' = ''app.py.3-9.diff''" by code_simp
  have h2: "\<forall>u v. basename ''out/app.py.3-9.diff'' = u @ ''.diff'' @ v \<longrightarrow> v = []"
  proof (intro allI impI)
    fix u v assume "basename ''out/app.py.3-9.diff'' = u @ ''.diff'' @ v"
    with bn have "''app.py.3-9.diff'' = u @ ''.diff'' @ v" by simp
    then show "v = []"
      by (simp add: append_eq_Cons_conv Cons_eq_append_conv)
  qed
  have h3: "\<forall>rs u v. range_str (app_record ''x'') = Some rs
              \<longrightarrow> basename ''out/app.py.3-9.diff'' = u @ CHR ''.'' # rs @ v \<longrightarrow> v = ''.diff''"
  proof (intro allI impI)
    fix rs u v
    assume "range_str (app_record ''x'') = Some rs"
      and "basename ''out/app.py.3-9.diff'' = u @ CHR ''.'' # rs @ v"
    with bn have "''app.py.3-9.diff'' = u @ ''.3-9'' @ v" by (simp add: app_record_def)
    then show "v = ''.diff''"
      by (simp add: append_eq_Cons_conv Cons_eq_append_conv)
  qed
  from C10_no_diff_when_only_trailing[OF disjI1, OF a h2 h3] a bn
  show ?thesis by (auto simp: app_record_def)
qed

end
